theory Spec2Isabelle
  imports Complex_Main "HOL-Library.Multiset"
begin

section \<open>Python values and strings\<close>

text \<open>
  A Python \<open>str\<close> is modelled as a \<open>string\<close> whose characters are the code points below
  256. Finite floating-point numbers are modelled by the rationals they denote and their
  arithmetic is exact: rounding of \<open>+\<close>, \<open>-\<close>, \<open>*\<close> and \<open>/\<close> is not modelled.
\<close>

datatype pyfloat = Finite rat | NaN | PosInf | NegInf

datatype pyval = PyNone | PyInt int | PyFloat pyfloat | PyStr string

datatype py_error = OverflowError | ValueError | TimeoutError | AuthenticationError | OtherError

text \<open>\<open>str.isspace\<close> on the code points below 256.\<close>

definition py_isspace :: "char \<Rightarrow> bool" where
  "py_isspace c \<longleftrightarrow> of_char c \<in> {9, 10, 11, 12, 13, 28, 29, 30, 31, 32, 133, 160 :: nat}"

text \<open>\<open>str.strip()\<close>: leading and trailing whitespace removed.\<close>

definition py_strip :: "string \<Rightarrow> string" where
  "py_strip s = rev (dropWhile py_isspace (rev (dropWhile py_isspace s)))"

text \<open>\<open>str.split()\<close>: the maximal runs of non-whitespace characters, in order.\<close>

fun split_acc :: "string \<Rightarrow> string \<Rightarrow> string list" where
  "split_acc cur [] = (if cur = [] then [] else [cur])"
| "split_acc cur (c # cs) =
     (if py_isspace c then (if cur = [] then split_acc [] cs else cur # split_acc [] cs)
      else split_acc (cur @ [c]) cs)"

definition py_split :: "string \<Rightarrow> string list" where
  "py_split s = split_acc [] s"

text \<open>\<open>sep.join(xs)\<close>.\<close>

fun py_join :: "string \<Rightarrow> string list \<Rightarrow> string" where
  "py_join sep [] = []"
| "py_join sep [x] = x"
| "py_join sep (x # y # ys) = x @ sep @ py_join sep (y # ys)"

text \<open>\<open>str(n)\<close> for a natural number: its decimal digits.\<close>

definition digit_char :: "nat \<Rightarrow> char" where
  "digit_char d = ''0123456789'' ! d"

fun str_nat :: "nat \<Rightarrow> string" where
  "str_nat n = (if n < 10 then [digit_char n] else str_nat (n div 10) @ [digit_char (n mod 10)])"

declare str_nat.simps [simp del]

text \<open>
  The format specification \<open>{n:0w}\<close> for an integer: sign-aware zero padding to a
  minimum width of \<open>w\<close> characters; a longer number is written in full.
\<close>

definition zero_pad :: "nat \<Rightarrow> string \<Rightarrow> string" where
  "zero_pad w s = replicate (w - length s) (CHR ''0'') @ s"

definition format_int :: "nat \<Rightarrow> int \<Rightarrow> string" where
  "format_int w n =
     (if n < 0 then ''-'' @ zero_pad (w - 1) (str_nat (nat (- n)))
      else zero_pad w (str_nat (nat n)))"

text \<open>\<open>int(x)\<close> of a finite float truncates towards zero.\<close>

definition py_int :: "rat \<Rightarrow> int" where
  "py_int x = (if x < 0 then \<lceil>x\<rceil> else \<lfloor>x\<rfloor>)"

text \<open>
  \<open>math.isnan\<close> and \<open>math.isinf\<close> convert an \<open>int\<close> argument to a float first and raise
  \<open>OverflowError\<close> when it is too large: the conversion rounds to nearest, so it overflows
  from \<open>2 ^ 1024 - 2 ^ 970\<close> on.
\<close>

definition int_fits_float :: "int \<Rightarrow> bool" where
  "int_fits_float n \<longleftrightarrow> \<bar>n\<bar> < 2 ^ 1024 - 2 ^ 970"

section \<open>output_utils.py: time formatting\<close>

text \<open>
  The body of \<open>format_srt_time\<close> after its guard, for a finite number \<open>seconds\<close> whose
  \<open>int(seconds)\<close> is \<open>isec\<close>. Python's \<open>%\<close> and \<open>//\<close> round towards minus infinity, as
  \<open>mod\<close> and \<open>div\<close> on \<open>int\<close> do.
\<close>

definition srt_time_fields :: "rat \<Rightarrow> int \<Rightarrow> string" where
  "srt_time_fields seconds isec =
     (let millisec = max 0 (py_int ((seconds - of_int isec) * 1000));
          sec = max 0 (isec mod 60);
          mins = max 0 ((isec div 60) mod 60);
          hrs = max 0 (isec div 3600)
      in format_int 2 hrs @ '':'' @ format_int 2 mins @ '':'' @ format_int 2 sec
           @ '','' @ format_int 3 millisec)"

definition format_srt_time :: "pyval \<Rightarrow> py_error + string" where
  "format_srt_time seconds =
     (case seconds of
        PyNone \<Rightarrow> Inr ''00:00:00,000''
      | PyStr _ \<Rightarrow> Inr ''00:00:00,000''
      | PyInt n \<Rightarrow>
          if int_fits_float n then Inr (srt_time_fields (of_int n) n) else Inl OverflowError
      | PyFloat NaN \<Rightarrow> Inr ''00:00:00,000''
      | PyFloat PosInf \<Rightarrow> Inr ''00:00:00,000''
      | PyFloat NegInf \<Rightarrow> Inr ''00:00:00,000''
      | PyFloat (Finite x) \<Rightarrow> Inr (srt_time_fields x (py_int x)))"

section \<open>output_utils.py: word wrap and subtitle writing\<close>

definition newline :: string where
  "newline = [CHR 0x0A]"

text \<open>\<open>d.get(key, default)\<close>, the entry of the dictionary being \<open>None\<close> when the key is absent.\<close>

definition dict_get :: "'a option \<Rightarrow> 'a \<Rightarrow> 'a" where
  "dict_get entry dflt = (case entry of None \<Rightarrow> dflt | Some v \<Rightarrow> v)"

text \<open>
  The loop of \<open>_wrap_text_to_lines\<close> over the words, on the pair of \<open>current_line\<close> and
  \<open>wrapped_lines\<close>.
\<close>

fun wrap_loop :: "int \<Rightarrow> string list \<Rightarrow> string \<Rightarrow> string list \<Rightarrow> string list \<times> string" where
  "wrap_loop max_line_length [] current_line wrapped_lines = (wrapped_lines, current_line)"
| "wrap_loop max_line_length (w # ws) current_line wrapped_lines =
     (if current_line = [] then wrap_loop max_line_length ws w wrapped_lines
      else if int (length current_line) + int (length w) + 1 \<le> max_line_length
        then wrap_loop max_line_length ws (current_line @ '' '' @ w) wrapped_lines
      else wrap_loop max_line_length ws w (wrapped_lines @ [current_line]))"

text \<open>
  \<open>max_line_length\<close> is \<open>None\<close> or an integer; \<open>not max_line_length\<close> holds for \<open>None\<close> and
  for \<open>0\<close>.
\<close>

definition wrap_text_to_lines :: "string \<Rightarrow> int option \<Rightarrow> string" where
  "wrap_text_to_lines text max_line_length =
     (case max_line_length of
        None \<Rightarrow> text
      | Some m \<Rightarrow>
          if m = 0 \<or> int (length text) \<le> m then text
          else
            (case wrap_loop m (py_split text) [] [] of
               (wrapped_lines, current_line) \<Rightarrow>
                 py_join newline
                   (if current_line \<noteq> [] then wrapped_lines @ [current_line] else wrapped_lines)))"

text \<open>
  An element of \<open>aligned_words\<close>: a dictionary in which each of the four keys may be absent.
  For \<open>start\<close> and \<open>end\<close>, \<open>None\<close> stands for an absent key as well as for the value
  \<open>None\<close>, which the source treats alike; the times are finite numbers.
\<close>

record word_info =
  wi_start :: "rat option"
  wi_end :: "rat option"
  wi_text :: "string option"
  wi_speaker :: "string option"

text \<open>
  \<open>srt_options\<close>: each key may be absent; \<open>max_line_length\<close> and \<open>max_words_per_entry\<close> may
  be present with the value \<open>None\<close>.
\<close>

record srt_options =
  opt_max_line_length :: "int option option"
  opt_max_words_per_entry :: "int option option"
  opt_speaker_gap_threshold :: "rat option"

text \<open>The local variables of \<open>save_to_srt\<close> and what has been written to \<open>f_srt\<close>.\<close>

record srt_state =
  srt_sequence :: nat
  phrase_start_time :: "rat option"
  phrase_end_time :: "rat option"
  phrase_text :: string
  current_speaker_srt :: "string option"
  words_in_phrase :: int
  last_word_end_time :: rat
  f_srt :: "string list"

definition time_arg :: "rat option \<Rightarrow> pyval" where
  "time_arg t = (case t of None \<Rightarrow> PyNone | Some x \<Rightarrow> PyFloat (Finite x))"

definition speaker_str :: "string option \<Rightarrow> string" where
  "speaker_str sp = (case sp of None \<Rightarrow> ''None'' | Some l \<Rightarrow> l)"

text \<open>
  Writing the open phrase as one entry: three \<open>f_srt.write\<close> calls. An exception carries
  what had been written before it was raised.
\<close>

definition write_phrase :: "int option \<Rightarrow> srt_state \<Rightarrow> (py_error \<times> string list) + srt_state" where
  "write_phrase max_line_length st =
     (let out1 = f_srt st @ [str_nat (srt_sequence st) @ newline] in
      case format_srt_time (time_arg (phrase_start_time st)) of
        Inl e \<Rightarrow> Inl (e, out1)
      | Inr t1 \<Rightarrow>
          (case format_srt_time (time_arg (phrase_end_time st)) of
             Inl e \<Rightarrow> Inl (e, out1)
           | Inr t2 \<Rightarrow>
               let out2 = out1 @ [t1 @ '' --> '' @ t2 @ newline];
                   line_to_write =
                     ''['' @ speaker_str (current_speaker_srt st) @ '']: ''
                       @ py_strip (phrase_text st);
                   line_to_write = wrap_text_to_lines line_to_write max_line_length
               in Inr (st\<lparr>f_srt := out2 @ [line_to_write @ newline @ newline]\<rparr>)))"

text \<open>The body of the loop of \<open>save_to_srt\<close> for the word at index \<open>i\<close>.\<close>

definition srt_step ::
  "int option \<Rightarrow> int option \<Rightarrow> rat \<Rightarrow> nat \<Rightarrow> word_info \<Rightarrow> srt_state
     \<Rightarrow> (py_error \<times> string list) + srt_state" where
  "srt_step max_line_length max_words_per_entry gap_threshold i w st =
     (case (wi_start w, wi_end w, wi_text w, wi_speaker w) of
        (Some word_start_time, Some word_end_time, Some text, Some speaker) \<Rightarrow>
          if word_start_time > word_end_time then Inr st
          else
            let is_new_speaker = (current_speaker_srt st \<noteq> Some speaker);
                is_long_gap =
                  (i > 0 \<and> word_start_time - last_word_end_time st > gap_threshold);
                is_phrase_too_long =
                  (case max_words_per_entry of
                     None \<Rightarrow> False
                   | Some m \<Rightarrow> words_in_phrase st \<ge> m)
            in
              (case
                 (if phrase_text st \<noteq> []
                     \<and> (is_new_speaker \<or> is_long_gap \<or> is_phrase_too_long)
                  then
                    (case write_phrase max_line_length st of
                       Inl e \<Rightarrow> Inl e
                     | Inr st1 \<Rightarrow>
                         Inr (st1\<lparr>srt_sequence := srt_sequence st1 + 1, phrase_text := []\<rparr>))
                  else Inr st)
               of
                 Inl e \<Rightarrow> Inl e
               | Inr st2 \<Rightarrow>
                   Inr ((if phrase_text st2 = [] then
                           st2\<lparr>current_speaker_srt := Some speaker,
                               phrase_start_time := Some word_start_time,
                               phrase_text := text,
                               words_in_phrase := 1,
                               phrase_end_time := Some word_end_time\<rparr>
                         else if \<not> is_new_speaker then
                           st2\<lparr>phrase_text := phrase_text st2 @ '' '' @ text,
                               phrase_end_time := Some word_end_time,
                               words_in_phrase := words_in_phrase st2 + 1\<rparr>
                         else
                           st2\<lparr>phrase_text := text,
                               words_in_phrase := 1,
                               current_speaker_srt := Some speaker,
                               phrase_start_time := Some word_start_time,
                               phrase_end_time := Some word_end_time\<rparr>)
                        \<lparr>last_word_end_time := word_end_time\<rparr>))
      | _ \<Rightarrow> Inr st)"

fun srt_loop ::
  "int option \<Rightarrow> int option \<Rightarrow> rat \<Rightarrow> nat \<Rightarrow> word_info list \<Rightarrow> srt_state
     \<Rightarrow> (py_error \<times> string list) + srt_state" where
  "srt_loop mll mw g i [] st = Inr st"
| "srt_loop mll mw g i (w # ws) st =
     (case srt_step mll mw g i w st of
        Inl e \<Rightarrow> Inl e
      | Inr st' \<Rightarrow> srt_loop mll mw g (Suc i) ws st')"

definition srt_init :: srt_state where
  "srt_init = \<lparr>srt_sequence = 1, phrase_start_time = None, phrase_end_time = None,
     phrase_text = [], current_speaker_srt = None, words_in_phrase = 0,
     last_word_end_time = 0, f_srt = []\<rparr>"

text \<open>
  \<open>save_to_srt\<close>: the returned flag and the strings written to the file, in order. Failures
  of the file system are not modelled.
\<close>

definition save_to_srt :: "word_info list \<Rightarrow> srt_options \<Rightarrow> bool \<times> string list" where
  "save_to_srt aligned_words srt_options =
     (let max_line_length = dict_get (opt_max_line_length srt_options) (Some 42);
          max_words_per_entry = dict_get (opt_max_words_per_entry srt_options) (Some 10);
          gap_threshold = dict_get (opt_speaker_gap_threshold srt_options) 1
      in case srt_loop max_line_length max_words_per_entry gap_threshold 0 aligned_words srt_init of
           Inl (e, out) \<Rightarrow> (False, out)
         | Inr st \<Rightarrow>
             if phrase_text st \<noteq> [] then
               (case write_phrase max_line_length st of
                  Inl (e, out) \<Rightarrow> (False, out)
                | Inr st' \<Rightarrow> (True, f_srt st'))
             else (True, f_srt st))"

section \<open>alignment.py\<close>

text \<open>
  A Whisper word object (\<open>word.start\<close>, \<open>word.end\<close>, \<open>word.word\<close>), a segment with its
  \<open>words\<close>, a speaker turn dictionary, and the dictionary built for each word, whose
  \<open>speaker\<close> key is absent until \<open>_find_speaker_for_word\<close> sets it. Times are finite numbers.
\<close>

record whisper_word =
  ww_start :: rat
  ww_end :: rat
  ww_word :: string

record segment =
  words :: "whisper_word list"

record speaker_turn =
  turn_start :: rat
  turn_end :: rat
  turn_speaker :: string

record aligned_word =
  aw_start :: rat
  aw_end :: rat
  aw_text :: string
  aw_word_index :: nat
  aw_speaker :: "string option"

text \<open>\<open>bisect.bisect_right(a, x)\<close> with \<open>lo = 0\<close> and \<open>hi = len(a)\<close>: the library's loop.\<close>

function bisect_right_loop :: "rat list \<Rightarrow> rat \<Rightarrow> nat \<Rightarrow> nat \<Rightarrow> nat" where
  "bisect_right_loop a x lo hi =
     (if lo < hi then
        (let mid = (lo + hi) div 2
         in if x < a ! mid then bisect_right_loop a x lo mid
            else bisect_right_loop a x (mid + 1) hi)
      else lo)"
  by pat_completeness auto
termination
  by (relation "measure (\<lambda>(a, x, lo, hi). hi - lo)") auto

declare bisect_right_loop.simps [simp del]

definition bisect_right :: "rat list \<Rightarrow> rat \<Rightarrow> nat" where
  "bisect_right a x = bisect_right_loop a x 0 (length a)"

definition find_speaker_for_word :: "aligned_word \<Rightarrow> speaker_turn list \<Rightarrow> aligned_word" where
  "find_speaker_for_word word_info speaker_turns_tuple =
     (let word_start = aw_start word_info;
          word_end = aw_end word_info;
          word_midpoint = word_start + (word_end - word_start) / 2
      in if speaker_turns_tuple = [] then word_info\<lparr>aw_speaker := Some ''UNKNOWN''\<rparr>
         else
           let turn_start_times = map turn_start speaker_turns_tuple;
               potential_turn_index = int (bisect_right turn_start_times word_midpoint) - 1;
               speaker =
                 (if potential_turn_index \<ge> 0
                     \<and> turn_start (speaker_turns_tuple ! nat potential_turn_index) \<le> word_midpoint
                     \<and> word_midpoint < turn_end (speaker_turns_tuple ! nat potential_turn_index)
                  then turn_speaker (speaker_turns_tuple ! nat potential_turn_index)
                  else
                    let next_turn_index = potential_turn_index + 1
                    in if next_turn_index < int (length speaker_turns_tuple)
                          \<and> turn_start (speaker_turns_tuple ! nat next_turn_index) \<le> word_midpoint
                          \<and> word_midpoint < turn_end (speaker_turns_tuple ! nat next_turn_index)
                       then turn_speaker (speaker_turns_tuple ! nat next_turn_index)
                       else ''UNKNOWN'')
           in word_info\<lparr>aw_speaker := Some speaker\<rparr>)"

text \<open>
  The preparation loop of \<open>align_speech_and_speakers\<close> over the words of all segments,
  with the running \<open>word_index\<close>.
\<close>

fun prepare_words :: "whisper_word list \<Rightarrow> nat \<Rightarrow> aligned_word list" where
  "prepare_words [] word_index = []"
| "prepare_words (w # ws) word_index =
     (let word_text = py_strip (ww_word w)
      in if word_text = [] then prepare_words ws word_index
         else \<lparr>aw_start = ww_start w, aw_end = ww_end w, aw_text = word_text,
                aw_word_index = word_index, aw_speaker = None\<rparr>
              # prepare_words ws (word_index + 1))"

subsection \<open>The worker pool\<close>

text \<open>
  \<open>multiprocessing.Pool.map\<close> is library code. It cuts the iterable into consecutive tasks of
  \<open>chunksize\<close> elements, workers apply the function to each task, and each finished task
  \<open>i\<close> stores its results in the slice \<open>[i * chunksize : (i + 1) * chunksize]\<close> of a result
  list that starts as \<open>[None] * len(iterable)\<close>. The environment decides whether the call
  fails, be it in a worker or in the pool itself, with the exception that the \<open>with\<close> block
  then raises, and in which order the tasks finish.
\<close>

record pool_env =
  pool_failure :: "py_error option"
  pool_completion :: "nat list"

function get_tasks :: "nat \<Rightarrow> 'a list \<Rightarrow> 'a list list" where
  "get_tasks n xs =
     (if take n xs = [] then [] else take n xs # get_tasks n (drop n xs))"
  by pat_completeness auto
termination
  by (relation "measure (\<lambda>(n, xs). length xs)") auto

declare get_tasks.simps [simp del]

text \<open>The slice assignment \<open>v[i:j] = r\<close> for \<open>0 \<le> i\<close> and \<open>0 \<le> j\<close>.\<close>

definition set_slice :: "'a list \<Rightarrow> nat \<Rightarrow> nat \<Rightarrow> 'a list \<Rightarrow> 'a list" where
  "set_slice v i j r = take i v @ r @ drop (max i j) v"

text \<open>
  The tasks finish one after the other; which of the pending tasks finishes next is read
  from the environment's list (the first pending task once that list is used up).
\<close>

function collect_results ::
  "nat list \<Rightarrow> nat \<Rightarrow> 'b list list \<Rightarrow> nat list \<Rightarrow> 'b option list \<Rightarrow> 'b option list" where
  "collect_results choices chunksize results pending val =
     (if pending = [] then val
      else
        let i = pending ! ((case choices of [] \<Rightarrow> 0 | c # _ \<Rightarrow> c) mod length pending)
        in collect_results (tl choices) chunksize results (remove1 i pending)
             (set_slice val (i * chunksize) ((i + 1) * chunksize) (map Some (results ! i))))"
  by pat_completeness auto
termination
  by (relation "measure (\<lambda>(choices, chunksize, results, pending, val). length pending)")
     (auto simp: length_remove1 intro!: diff_less)

declare collect_results.simps [simp del]

text \<open>
  \<open>Pool(processes).map(func, iterable, chunksize)\<close>. \<open>Pool\<close> raises \<open>ValueError\<close> for fewer
  than one process. Every slot of the result list is filled when the last task has
  finished (lemma \<open>collect_results_all\<close>).
\<close>

definition pool_map ::
  "pool_env \<Rightarrow> int \<Rightarrow> ('a \<Rightarrow> 'b) \<Rightarrow> 'a list \<Rightarrow> nat \<Rightarrow> py_error + 'b list" where
  "pool_map env processes func iterable chunksize =
     (if processes < 1 then Inl ValueError
      else
        case pool_failure env of
          Some e \<Rightarrow> Inl e
        | None \<Rightarrow>
            let tasks = get_tasks chunksize iterable;
                results = map (map func) tasks;
                val = collect_results (pool_completion env) chunksize results
                        [0..<length tasks] (replicate (length iterable) None)
            in Inr (map the val))"

subsection \<open>align_speech_and_speakers\<close>

record config =
  ALIGNMENT_TARGET_WORDS_PER_CHUNK :: int
  ALIGNMENT_MAX_WORKERS :: int

text \<open>\<open>math.ceil(a / b)\<close> for integers \<open>a\<close> and \<open>b \<noteq> 0\<close>, the quotient taken exactly.\<close>

definition ceil_div :: "int \<Rightarrow> int \<Rightarrow> int" where
  "ceil_div a b = \<lceil>(of_int a :: rat) / of_int b\<rceil>"

definition num_workers_of :: "config \<Rightarrow> int \<Rightarrow> int" where
  "num_workers_of cfg total_words =
     (let target_chunk_size = ALIGNMENT_TARGET_WORDS_PER_CHUNK cfg;
          max_workers = ALIGNMENT_MAX_WORKERS cfg
      in if total_words > 0 \<and> target_chunk_size > 0 then
           (let num_chunks_ideal = ceil_div total_words target_chunk_size;
                num_workers = min max_workers num_chunks_ideal
            in max 1 num_workers)
         else 1)"

definition chunksize_of :: "int \<Rightarrow> int \<Rightarrow> int" where
  "chunksize_of total_words num_workers =
     (let chunk_factor = 4
      in if total_words > 0 then max 1 (ceil_div total_words (num_workers * chunk_factor))
         else 1)"

text \<open>
  The function returns its list; the second component is the caller's \<open>speaker_turns\<close>
  list object as the call leaves it. \<open>list.sort\<close> sorts that object in place and is
  stable, as \<open>sort_key\<close> is. For an empty list the local name is rebound to a new list.
\<close>

definition align_speech_and_speakers ::
  "config \<Rightarrow> pool_env \<Rightarrow> segment list \<Rightarrow> speaker_turn list
     \<Rightarrow> aligned_word list \<times> speaker_turn list" where
  "align_speech_and_speakers cfg env segments speaker_turns =
     (let words_to_process = prepare_words (concat (map words segments)) 0
      in if words_to_process = [] then ([], speaker_turns)
         else
           let total_words = int (length words_to_process);
               sorted_turns = sort_key turn_start speaker_turns;
               callers_list = (if speaker_turns = [] then speaker_turns else sorted_turns);
               speaker_turns_tuple = sorted_turns;
               num_workers = num_workers_of cfg total_words;
               chunksize = chunksize_of total_words num_workers;
               worker_func = (\<lambda>word_info. find_speaker_for_word word_info speaker_turns_tuple)
           in case pool_map env num_workers worker_func words_to_process (nat chunksize) of
                Inl e \<Rightarrow> ([], callers_list)
              | Inr aligned_words_results \<Rightarrow> (aligned_words_results, callers_list))"

section \<open>Notions used to state the properties\<close>






text \<open>The midpoint of a word, as \<open>_find_speaker_for_word\<close> computes it.\<close>

definition word_midpoint :: "aligned_word \<Rightarrow> rat" where
  "word_midpoint w = aw_start w + (aw_end w - aw_start w) / 2"





text \<open>The three strings that make up one subtitle entry.\<close>

definition entry_strings ::
  "int option \<Rightarrow> nat \<Rightarrow> rat \<Rightarrow> rat \<Rightarrow> string \<Rightarrow> string \<Rightarrow> string list" where
  "entry_strings max_line_length n s e speaker text =
     [str_nat n @ newline,
      (case format_srt_time (PyFloat (Finite s)) of Inr t \<Rightarrow> t | Inl x \<Rightarrow> [])
        @ '' --> ''
        @ (case format_srt_time (PyFloat (Finite e)) of Inr t \<Rightarrow> t | Inl x \<Rightarrow> [])
        @ newline,
      wrap_text_to_lines (''['' @ speaker @ '']: '' @ py_strip text) max_line_length
        @ newline @ newline]"

text \<open>A well-formed word of a given speaker, with a text that is not empty.\<close>

definition spoken_by :: "string \<Rightarrow> word_info \<Rightarrow> bool" where
  "spoken_by sp w \<longleftrightarrow>
     (case (wi_start w, wi_end w, wi_text w, wi_speaker w) of
        (Some s, Some e, Some t, Some sp') \<Rightarrow> s \<le> e \<and> t \<noteq> [] \<and> sp' = sp
      | _ \<Rightarrow> False)"

text \<open>No word starts more than \<open>g\<close> after the end of the word before it.\<close>

fun no_long_gap :: "rat \<Rightarrow> word_info list \<Rightarrow> bool" where
  "no_long_gap g [] = True"
| "no_long_gap g [w] = True"
| "no_long_gap g (w # w' # ws) =
     ((case (wi_end w, wi_start w') of (Some e, Some s) \<Rightarrow> s - e \<le> g | _ \<Rightarrow> False)
      \<and> no_long_gap g (w' # ws))"

definition text_of :: "word_info \<Rightarrow> string" where
  "text_of w = (case wi_text w of Some t \<Rightarrow> t | None \<Rightarrow> [])"

definition start_of :: "word_info \<Rightarrow> rat" where
  "start_of w = (case wi_start w of Some s \<Rightarrow> s | None \<Rightarrow> 0)"

definition end_of :: "word_info \<Rightarrow> rat" where
  "end_of w = (case wi_end w of Some e \<Rightarrow> e | None \<Rightarrow> 0)"




section \<open>Time formatting\<close>





















section \<open>Binary search and speaker assignment\<close>
















section \<open>The worker pool returns the sequential map\<close>

lemma take_Nil_pos: "0 < n \<Longrightarrow> take n xs = [] \<longleftrightarrow> xs = []"
  by (cases xs) auto

lemma get_tasks_length_iff:
  "0 < cs \<Longrightarrow> i < length (get_tasks cs xs) \<longleftrightarrow> i * cs < length xs"
proof (induction cs xs arbitrary: i rule: get_tasks.induct)
  case (1 n xs)
  show ?case
  proof (cases "xs = []")
    case True
    then show ?thesis by (subst get_tasks.simps) simp
  next
    case False
    then have ne: "take n xs \<noteq> []" using "1.prems" by (simp add: take_Nil_pos)
    have eq: "get_tasks n xs = take n xs # get_tasks n (drop n xs)"
      using ne by (subst get_tasks.simps) simp
    show ?thesis
    proof (cases i)
      case 0
      then show ?thesis using False eq by simp
    next
      case (Suc j)
      have "j < length (get_tasks n (drop n xs)) \<longleftrightarrow> j * n < length (drop n xs)"
        using "1.IH"[OF ne "1.prems"] .
      then show ?thesis using Suc eq by (auto simp: less_diff_conv)
    qed
  qed
qed

lemma get_tasks_nth:
  "0 < cs \<Longrightarrow> i < length (get_tasks cs xs) \<Longrightarrow> get_tasks cs xs ! i = take cs (drop (i * cs) xs)"
proof (induction cs xs arbitrary: i rule: get_tasks.induct)
  case (1 n xs)
  have ne: "take n xs \<noteq> []"
  proof
    assume "take n xs = []"
    then have "get_tasks n xs = []" by (subst get_tasks.simps) simp
    with "1.prems" show False by simp
  qed
  have eq: "get_tasks n xs = take n xs # get_tasks n (drop n xs)"
    using ne by (subst get_tasks.simps) simp
  show ?case
  proof (cases i)
    case 0
    then show ?thesis using eq by simp
  next
    case (Suc j)
    then have "j < length (get_tasks n (drop n xs))" using "1.prems" eq by simp
    from "1.IH"[OF ne "1.prems"(1) this]
    show ?thesis using Suc eq by (simp add: add.commute)
  qed
qed

lemma set_slice_task_length:
  assumes "0 < cs" "i * cs < n" "length val = n" "length ys = n"
  shows "length (set_slice val (i * cs) ((i + 1) * cs) (map Some (take cs (drop (i * cs) ys))))
           = n"
  using assms by (auto simp: set_slice_def min_def max_def)

lemma set_slice_task_nth:
  assumes "0 < cs" "i * cs < n" "length val = n" "length ys = n" "j < n"
  shows "set_slice val (i * cs) ((i + 1) * cs) (map Some (take cs (drop (i * cs) ys))) ! j
           = (if j div cs = i then Some (ys ! j) else val ! j)"
proof -
  define a where "a = i * cs"
  define chunk where "chunk = map Some (take cs (drop a ys))"
  have an: "a < n" using assms(2) by (simp add: a_def)
  have b: "(i + 1) * cs = a + cs" by (simp add: a_def)
  have mx: "max a (a + cs) = a + cs" by simp
  have la: "length (take a val) = a" using an assms(3) by simp
  have lc: "length chunk = min cs (n - a)" using assms(4) by (simp add: chunk_def)
  have sl: "set_slice val (i * cs) ((i + 1) * cs) (map Some (take cs (drop (i * cs) ys)))
      = take a val @ chunk @ drop (a + cs) val"
    unfolding a_def[symmetric] b set_slice_def mx chunk_def ..
  consider "j < a" | "a \<le> j" "j < a + cs" | "a + cs \<le> j" by linarith
  then show ?thesis
  proof cases
    case 1
    then have "j div cs < i" using assms(1) by (simp add: a_def div_less_iff_less_mult)
    then have d: "j div cs \<noteq> i" by simp
    have "(take a val @ chunk @ drop (a + cs) val) ! j = take a val ! j"
      using 1 la by (simp add: nth_append)
    also have "\<dots> = val ! j" using 1 by simp
    finally show ?thesis unfolding sl using d by simp
  next
    case 2
    have d: "j div cs = i"
      using 2 unfolding a_def by (intro div_nat_eqI) (simp_all add: mult.commute)
    have l: "j - a < length chunk" unfolding lc using 2 assms(5) by linarith
    have "(take a val @ chunk @ drop (a + cs) val) ! j = (chunk @ drop (a + cs) val) ! (j - a)"
      using 2 la by (simp add: nth_append)
    also have "\<dots> = chunk ! (j - a)" using l by (simp add: nth_append)
    also have "\<dots> = Some (take cs (drop a ys) ! (j - a))"
      using l unfolding chunk_def by simp
    also have "\<dots> = Some (ys ! j)"
    proof -
      have "j - a < cs" using 2 by linarith
      moreover have "a + (j - a) = j" using 2 by simp
      moreover have "a + (j - a) < length ys" using 2 assms(4,5) by simp
      ultimately show ?thesis by simp
    qed
    finally show ?thesis unfolding sl using d by simp
  next
    case 3
    then have "(i + 1) * cs \<le> j" unfolding b .
    then have "i + 1 \<le> j div cs" using assms(1) by (simp add: less_eq_div_iff_mult_less_eq)
    then have d: "j div cs \<noteq> i" by simp
    have l: "length chunk = cs" unfolding lc using 3 assms(5) by linarith
    have "(take a val @ chunk @ drop (a + cs) val) ! j = (chunk @ drop (a + cs) val) ! (j - a)"
      using 3 la by (simp add: nth_append)
    also have "\<dots> = drop (a + cs) val ! (j - a - cs)"
    proof -
      have "\<not> j - a < length chunk" unfolding l using 3 by linarith
      then show ?thesis by (simp add: nth_append l)
    qed
    also have "\<dots> = val ! j"
    proof -
      have "a + cs + (j - a - cs) = j" using 3 by linarith
      then show ?thesis using 3 assms(3,5) by simp
    qed
    finally show ?thesis unfolding sl using d by simp
  qed
qed

lemma collect_results_all:
  assumes "0 < cs" "length ys = n"
    "\<forall>i. i * cs < n \<longrightarrow> results ! i = take cs (drop (i * cs) ys)"
    "length val = n" "distinct pending" "\<forall>i\<in>set pending. i * cs < n"
    "\<forall>j<n. j div cs \<notin> set pending \<longrightarrow> val ! j = Some (ys ! j)"
  shows "collect_results choices cs results pending val = map Some ys"
  using assms
proof (induction choices cs results pending val rule: collect_results.induct)
  case (1 choices cs results pending val)
  show ?case
  proof (cases "pending = []")
    case True
    have "val = map Some ys"
      using "1.prems" True by (intro nth_equalityI) simp_all
    then show ?thesis using True by (subst collect_results.simps) simp
  next
    case False
    define i where "i = pending ! ((case choices of [] \<Rightarrow> 0 | c # _ \<Rightarrow> c) mod length pending)"
    define val' where
      "val' = set_slice val (i * cs) ((i + 1) * cs) (map Some (results ! i))"
    have iin: "i \<in> set pending" using False by (simp add: i_def)
    then have ib: "i * cs < n" using "1.prems" by simp
    then have r: "results ! i = take cs (drop (i * cs) ys)" using "1.prems" by simp
    have len: "length val' = n"
      unfolding val'_def r using "1.prems" ib by (intro set_slice_task_length) simp_all
    have nth: "\<And>j. j < n \<Longrightarrow> val' ! j = (if j div cs = i then Some (ys ! j) else val ! j)"
      unfolding val'_def r using "1.prems" ib by (intro set_slice_task_nth) simp_all
    have inv: "\<forall>j<n. j div cs \<notin> set (remove1 i pending) \<longrightarrow> val' ! j = Some (ys ! j)"
      using nth "1.prems"(5,7) by (auto simp: set_remove1_eq)
    have d: "distinct (remove1 i pending)" using "1.prems" by simp
    have b: "\<forall>k\<in>set (remove1 i pending). k * cs < n"
      using "1.prems"(5,6) by (auto simp: set_remove1_eq)
    have "collect_results (tl choices) cs results (remove1 i pending) val' = map Some ys"
      using "1.IH"[OF False i_def "1.prems"(1,2,3) _ d b] len inv
      unfolding val'_def by simp
    then show ?thesis
      using False by (subst collect_results.simps) (simp add: i_def val'_def Let_def)
  qed
qed

text \<open>
  For at least one process and a positive chunk size, a pool that does not fail returns the
  function mapped over the list in order, whatever the order in which the tasks finish.
\<close>

lemma pool_map_ok:
  assumes "1 \<le> processes" "0 < chunksize" "pool_failure env = None"
  shows "pool_map env processes func iterable chunksize = Inr (map func iterable)"
proof -
  define tasks where "tasks = get_tasks chunksize iterable"
  define ys where "ys = map func iterable"
  define n where "n = length iterable"
  have r: "\<forall>i. i * chunksize < n \<longrightarrow>
      map (map func) tasks ! i = take chunksize (drop (i * chunksize) ys)"
  proof (intro allI impI)
    fix i assume "i * chunksize < n"
    then have l: "i < length tasks"
      using get_tasks_length_iff[OF assms(2), of i iterable] by (simp add: tasks_def n_def)
    then show "map (map func) tasks ! i = take chunksize (drop (i * chunksize) ys)"
      using get_tasks_nth[OF assms(2), of i iterable]
      by (simp add: tasks_def ys_def take_map drop_map)
  qed
  have p: "\<forall>i\<in>set [0..<length tasks]. i * chunksize < n"
    using get_tasks_length_iff[OF assms(2), of _ iterable] by (simp add: tasks_def n_def)
  have g: "\<forall>j<n. j div chunksize \<notin> set [0..<length tasks] \<longrightarrow>
      replicate n None ! j = Some (ys ! j)"
  proof (intro allI impI)
    fix j assume j: "j < n" and nin: "j div chunksize \<notin> set [0..<length tasks]"
    have "(j div chunksize) * chunksize \<le> j" by simp
    then have "(j div chunksize) * chunksize < n" using j by linarith
    then have "j div chunksize < length tasks"
      using get_tasks_length_iff[OF assms(2), of "j div chunksize" iterable]
      by (simp add: tasks_def n_def)
    with nin show "replicate n None ! j = Some (ys ! j)" by simp
  qed
  have "collect_results (pool_completion env) chunksize (map (map func) tasks)
          [0..<length tasks] (replicate n None) = map Some ys"
    using assms(2) r p g by (intro collect_results_all[where n = n]) (simp_all add: ys_def n_def)
  then show ?thesis
    using assms(1,3)
    by (simp add: pool_map_def tasks_def[symmetric] n_def[symmetric] Let_def ys_def comp_def)
qed

section \<open>align_speech_and_speakers\<close>

lemma num_workers_of_pos: "1 \<le> num_workers_of cfg total_words"
  by (simp add: num_workers_of_def Let_def)

lemma chunksize_of_pos: "0 < nat (chunksize_of total_words num_workers)"
  by (simp add: chunksize_of_def Let_def max_def)

lemma find_speaker_keeps_word:
  "aw_start (find_speaker_for_word w ts) = aw_start w"
  "aw_end (find_speaker_for_word w ts) = aw_end w"
  "aw_text (find_speaker_for_word w ts) = aw_text w"
  "aw_word_index (find_speaker_for_word w ts) = aw_word_index w"
  by (simp_all add: find_speaker_for_word_def Let_def)

lemma prepare_words_filter:
  "map (\<lambda>a. (aw_start a, aw_end a, aw_text a)) (prepare_words ws k) =
     map (\<lambda>w. (ww_start w, ww_end w, py_strip (ww_word w)))
       (filter (\<lambda>w. py_strip (ww_word w) \<noteq> []) ws)"
  by (induction ws arbitrary: k) (simp_all add: Let_def)

lemma align_no_words:
  "prepare_words (concat (map words segments)) 0 = [] \<Longrightarrow>
     align_speech_and_speakers cfg env segments speaker_turns = ([], speaker_turns)"
  by (simp add: align_speech_and_speakers_def)

lemma callers_list_sorted:
  "(if speaker_turns = [] then speaker_turns else sort_key turn_start speaker_turns)
     = sort_key turn_start speaker_turns"
  by simp

lemma align_pool_ok:
  assumes "pool_failure env = None" "prepare_words (concat (map words segments)) 0 \<noteq> []"
  shows "align_speech_and_speakers cfg env segments speaker_turns =
           (map (\<lambda>w. find_speaker_for_word w (sort_key turn_start speaker_turns))
              (prepare_words (concat (map words segments)) 0),
            sort_key turn_start speaker_turns)"
  using assms(2)
  unfolding align_speech_and_speakers_def Let_def callers_list_sorted
  by (simp add: pool_map_ok[OF num_workers_of_pos chunksize_of_pos assms(1)])

lemma align_pool_failure:
  assumes "pool_failure env = Some e" "prepare_words (concat (map words segments)) 0 \<noteq> []"
  shows "align_speech_and_speakers cfg env segments speaker_turns =
           ([], sort_key turn_start speaker_turns)"
proof -
  have "pool_map env p f xs c = Inl (if p < 1 then ValueError else e)" for p c xs
    and f :: "aligned_word \<Rightarrow> aligned_word"
    using assms(1) by (simp add: pool_map_def)
  then show ?thesis
    using assms(2) unfolding align_speech_and_speakers_def Let_def callers_list_sorted
    by simp
qed

lemma align_sequential:
  assumes "pool_failure env = None"
  shows "fst (align_speech_and_speakers cfg env segments speaker_turns) =
           map (\<lambda>w. find_speaker_for_word w (sort_key turn_start speaker_turns))
             (prepare_words (concat (map words segments)) 0)"
proof (cases "prepare_words (concat (map words segments)) 0 = []")
  case True
  then show ?thesis by (simp add: align_no_words)
next
  case False
  then show ?thesis by (simp add: align_pool_ok[OF assms])
qed

text \<open>
  Claim C1. When the pool does not fail, the result of \<open>align_speech_and_speakers\<close> has one
  element for each input word whose stripped text is not empty, in the order of the input,
  and each element carries the start, the end and the stripped text of its word.
\<close>

theorem align_length_and_order:
  assumes "pool_failure env = None"
  shows "map (\<lambda>a. (aw_start a, aw_end a, aw_text a))
           (fst (align_speech_and_speakers cfg env segments speaker_turns)) =
         map (\<lambda>w. (ww_start w, ww_end w, py_strip (ww_word w)))
           (filter (\<lambda>w. py_strip (ww_word w) \<noteq> []) (concat (map words segments)))
       \<and> length (fst (align_speech_and_speakers cfg env segments speaker_turns)) =
         length (filter (\<lambda>w. py_strip (ww_word w) \<noteq> []) (concat (map words segments)))"
proof -
  have m: "map (\<lambda>a. (aw_start a, aw_end a, aw_text a))
           (fst (align_speech_and_speakers cfg env segments speaker_turns)) =
         map (\<lambda>w. (ww_start w, ww_end w, py_strip (ww_word w)))
           (filter (\<lambda>w. py_strip (ww_word w) \<noteq> []) (concat (map words segments)))"
    by (simp add: align_sequential[OF assms] comp_def find_speaker_keeps_word
        prepare_words_filter)
  from arg_cong[OF m, of length]
  have "length (fst (align_speech_and_speakers cfg env segments speaker_turns)) =
         length (filter (\<lambda>w. py_strip (ww_word w) \<noteq> []) (concat (map words segments)))"
    by (simp only: length_map)
  with m show ?thesis by (rule conjI)
qed

theorem align_length_and_order_witness:
  "map (\<lambda>a. (aw_start a, aw_end a, aw_text a))
     (fst (align_speech_and_speakers
        \<lparr>ALIGNMENT_TARGET_WORDS_PER_CHUNK = 1, ALIGNMENT_MAX_WORKERS = 3\<rparr>
        \<lparr>pool_failure = None, pool_completion = [1, 0]\<rparr>
        [\<lparr>words = [\<lparr>ww_start = 0, ww_end = 1, ww_word = ''Hello''\<rparr>,
                    \<lparr>ww_start = 1, ww_end = 1, ww_word = '' ''\<rparr>]\<rparr>,
         \<lparr>words = [\<lparr>ww_start = 11 / 10, ww_end = 2, ww_word = '' world''\<rparr>]\<rparr>]
        [\<lparr>turn_start = 3 / 2, turn_end = 5 / 2, turn_speaker = ''SPEAKER_2''\<rparr>,
         \<lparr>turn_start = 0, turn_end = 3 / 2, turn_speaker = ''SPEAKER_1''\<rparr>]))
   = [(0, 1, ''Hello''), (11 / 10, 2, ''world'')]"
proof -
  have s: "py_strip ''Hello'' = ''Hello''" "py_strip '' '' = []" "py_strip '' world'' = ''world''"
    by code_simp+
  show ?thesis
    using align_length_and_order[of "\<lparr>pool_failure = None, pool_completion = [1, 0]\<rparr>"
      "\<lparr>ALIGNMENT_TARGET_WORDS_PER_CHUNK = 1, ALIGNMENT_MAX_WORKERS = 3\<rparr>"
      "[\<lparr>words = [\<lparr>ww_start = 0, ww_end = 1, ww_word = ''Hello''\<rparr>,
                    \<lparr>ww_start = 1, ww_end = 1, ww_word = '' ''\<rparr>]\<rparr>,
         \<lparr>words = [\<lparr>ww_start = 11 / 10, ww_end = 2, ww_word = '' world''\<rparr>]\<rparr>]"
      "[\<lparr>turn_start = 3 / 2, turn_end = 5 / 2, turn_speaker = ''SPEAKER_2''\<rparr>,
         \<lparr>turn_start = 0, turn_end = 3 / 2, turn_speaker = ''SPEAKER_1''\<rparr>]"]
    by (simp add: s)
qed

text \<open>
  Claim C6. For at least one worker process, a positive chunk size and any order in which
  the tasks finish, the pool returns the function mapped over the list in order; and for
  every configuration \<open>align_speech_and_speakers\<close> returns, when the pool does not fail,
  \<open>_find_speaker_for_word\<close> mapped in order over the prepared words.
\<close>

theorem parallel_is_sequential:
  "(1 \<le> processes \<and> 0 < chunksize \<and> pool_failure env = None \<longrightarrow>
      pool_map env processes func iterable chunksize = Inr (map func iterable))
   \<and> (pool_failure env = None \<longrightarrow>
        fst (align_speech_and_speakers cfg env segments speaker_turns) =
          map (\<lambda>w. find_speaker_for_word w (sort_key turn_start speaker_turns))
            (prepare_words (concat (map words segments)) 0))"
  using pool_map_ok[of processes chunksize env func iterable]
    align_sequential[of env cfg segments speaker_turns]
  by blast

theorem parallel_is_sequential_witness:
  "pool_map \<lparr>pool_failure = None, pool_completion = [2, 0, 5]\<rparr> 3 (\<lambda>n. n * n)
     [1, 2, 3, 4, 5 :: nat] 2 = Inr [1, 4, 9, 16, 25]
   \<and> pool_map \<lparr>pool_failure = None, pool_completion = []\<rparr> 1 (\<lambda>n. n * n)
     [1, 2, 3, 4, 5 :: nat] 5 = Inr [1, 4, 9, 16, 25]
   \<and> map aw_speaker
       (fst (align_speech_and_speakers
          \<lparr>ALIGNMENT_TARGET_WORDS_PER_CHUNK = 1, ALIGNMENT_MAX_WORKERS = 3\<rparr>
          \<lparr>pool_failure = None, pool_completion = [1, 0]\<rparr>
          [\<lparr>words = [\<lparr>ww_start = 0, ww_end = 1, ww_word = ''Hello''\<rparr>,
                      \<lparr>ww_start = 11 / 10, ww_end = 2, ww_word = ''world''\<rparr>]\<rparr>]
          [\<lparr>turn_start = 3 / 2, turn_end = 5 / 2, turn_speaker = ''SPEAKER_2''\<rparr>,
           \<lparr>turn_start = 0, turn_end = 3 / 2, turn_speaker = ''SPEAKER_1''\<rparr>]))
     = [Some ''SPEAKER_1'', Some ''SPEAKER_2'']"
proof -
  let ?cfg = "\<lparr>ALIGNMENT_TARGET_WORDS_PER_CHUNK = 1, ALIGNMENT_MAX_WORKERS = 3\<rparr>"
  let ?env = "\<lparr>pool_failure = None, pool_completion = [1, 0]\<rparr>"
  let ?segs = "[\<lparr>words = [\<lparr>ww_start = 0, ww_end = 1, ww_word = ''Hello''\<rparr>,
                      \<lparr>ww_start = 11 / 10, ww_end = 2, ww_word = ''world''\<rparr>]\<rparr>]"
  let ?turns = "[\<lparr>turn_start = 3 / 2, turn_end = 5 / 2, turn_speaker = ''SPEAKER_2''\<rparr>,
           \<lparr>turn_start = 0, turn_end = 3 / 2, turn_speaker = ''SPEAKER_1''\<rparr>]"
  have 1: "pool_map \<lparr>pool_failure = None, pool_completion = [2, 0, 5]\<rparr> 3 (\<lambda>n. n * n)
     [1, 2, 3, 4, 5 :: nat] 2 = Inr [1, 4, 9, 16, 25]"
    using parallel_is_sequential[of 3 2 "\<lparr>pool_failure = None, pool_completion = [2, 0, 5]\<rparr>"
        "\<lambda>n. n * n" "[1, 2, 3, 4, 5 :: nat]"]
    by simp
  have 2: "pool_map \<lparr>pool_failure = None, pool_completion = []\<rparr> 1 (\<lambda>n. n * n)
     [1, 2, 3, 4, 5 :: nat] 5 = Inr [1, 4, 9, 16, 25]"
    using parallel_is_sequential[of 1 5 "\<lparr>pool_failure = None, pool_completion = []\<rparr>"
        "\<lambda>n. n * n" "[1, 2, 3, 4, 5 :: nat]"]
    by simp
  have s: "py_strip ''Hello'' = ''Hello''" "py_strip ''world'' = ''world''"
    by code_simp+
  have f: "map aw_speaker (map (\<lambda>w. find_speaker_for_word w (sort_key turn_start ?turns))
            (prepare_words (concat (map words ?segs)) 0))
           = [Some ''SPEAKER_1'', Some ''SPEAKER_2'']"
    by code_simp
  have e: "pool_failure ?env = None" by simp
  have "fst (align_speech_and_speakers ?cfg ?env ?segs ?turns) =
          map (\<lambda>w. find_speaker_for_word w (sort_key turn_start ?turns))
            (prepare_words (concat (map words ?segs)) 0)"
    by (rule mp[OF conjunct2[OF parallel_is_sequential[of _ _ ?env _ _ ?cfg ?segs ?turns]] e])
  then have 3: "map aw_speaker (fst (align_speech_and_speakers ?cfg ?env ?segs ?turns))
      = [Some ''SPEAKER_1'', Some ''SPEAKER_2'']"
    using f by (simp only:)
  show ?thesis using 1 2 3 by blast
qed

text \<open>
  Claim C2, as amended. A failure of the pool, whichever exception it raises, aborts the
  whole alignment: no aligned word is returned. The value returned is the empty list,
  which is also the value returned when there is no word to align.
\<close>

theorem pool_failure_returns_empty:
  "(pool_failure env = Some e \<longrightarrow>
      fst (align_speech_and_speakers cfg env segments speaker_turns) = [])
   \<and> (prepare_words (concat (map words segments)) 0 = [] \<longrightarrow>
        fst (align_speech_and_speakers cfg env segments speaker_turns) = [])"
proof (intro conjI impI)
  assume f: "pool_failure env = Some e"
  show "fst (align_speech_and_speakers cfg env segments speaker_turns) = []"
  proof (cases "prepare_words (concat (map words segments)) 0 = []")
    case True
    then show ?thesis by (simp add: align_no_words)
  next
    case False
    then show ?thesis by (simp add: align_pool_failure[OF f])
  qed
next
  assume "prepare_words (concat (map words segments)) 0 = []"
  then show "fst (align_speech_and_speakers cfg env segments speaker_turns) = []"
    by (simp add: align_no_words)
qed

theorem pool_failure_returns_empty_witness:
  "fst (align_speech_and_speakers
      \<lparr>ALIGNMENT_TARGET_WORDS_PER_CHUNK = 500, ALIGNMENT_MAX_WORKERS = 3\<rparr>
      \<lparr>pool_failure = Some TimeoutError, pool_completion = []\<rparr>
      [\<lparr>words = [\<lparr>ww_start = 0, ww_end = 1, ww_word = ''Hello''\<rparr>]\<rparr>]
      [\<lparr>turn_start = 0, turn_end = 3 / 2, turn_speaker = ''SPEAKER_1''\<rparr>]) = []
   \<and> prepare_words (concat (map words [\<lparr>words = []\<rparr>])) 0 = []
   \<and> fst (align_speech_and_speakers
      \<lparr>ALIGNMENT_TARGET_WORDS_PER_CHUNK = 500, ALIGNMENT_MAX_WORKERS = 3\<rparr>
      \<lparr>pool_failure = None, pool_completion = []\<rparr>
      [\<lparr>words = []\<rparr>]
      [\<lparr>turn_start = 0, turn_end = 3 / 2, turn_speaker = ''SPEAKER_1''\<rparr>]) = []"
proof -
  let ?cfg = "\<lparr>ALIGNMENT_TARGET_WORDS_PER_CHUNK = 500, ALIGNMENT_MAX_WORKERS = 3\<rparr>"
  let ?bad = "\<lparr>pool_failure = Some TimeoutError, pool_completion = []\<rparr>"
  let ?ok = "\<lparr>pool_failure = None, pool_completion = []\<rparr>"
  let ?segs = "[\<lparr>words = [\<lparr>ww_start = 0, ww_end = 1, ww_word = ''Hello''\<rparr>]\<rparr>]"
  let ?turns = "[\<lparr>turn_start = 0, turn_end = 3 / 2, turn_speaker = ''SPEAKER_1''\<rparr>]"
  have b: "pool_failure ?bad = Some TimeoutError" by simp
  have 1: "fst (align_speech_and_speakers ?cfg ?bad ?segs ?turns) = []"
    by (rule mp[OF conjunct1[OF pool_failure_returns_empty[of ?bad TimeoutError ?cfg ?segs
            ?turns]] b])
  have 2: "prepare_words (concat (map words [\<lparr>words = []\<rparr>])) 0 = []" by simp
  have 3: "fst (align_speech_and_speakers ?cfg ?ok [\<lparr>words = []\<rparr>] ?turns) = []"
    by (rule mp[OF conjunct2[OF pool_failure_returns_empty[of ?ok _ ?cfg "[\<lparr>words = []\<rparr>]"
            ?turns]] 2])
  show ?thesis using 1 2 3 by blast
qed

text \<open>
  Claim C2 as stated fails. With one word to align and a pool that fails, the caller gets
  the empty list, the very value it gets for an input without words.
\<close>

theorem pool_failure_counterexample:
  "prepare_words (concat (map words
       [\<lparr>words = [\<lparr>ww_start = 0, ww_end = 1, ww_word = ''Hello''\<rparr>]\<rparr>])) 0 \<noteq> []
   \<and> fst (align_speech_and_speakers
      \<lparr>ALIGNMENT_TARGET_WORDS_PER_CHUNK = 500, ALIGNMENT_MAX_WORKERS = 3\<rparr>
      \<lparr>pool_failure = Some OtherError, pool_completion = []\<rparr>
      [\<lparr>words = [\<lparr>ww_start = 0, ww_end = 1, ww_word = ''Hello''\<rparr>]\<rparr>]
      [\<lparr>turn_start = 0, turn_end = 3 / 2, turn_speaker = ''SPEAKER_1''\<rparr>])
     = fst (align_speech_and_speakers
      \<lparr>ALIGNMENT_TARGET_WORDS_PER_CHUNK = 500, ALIGNMENT_MAX_WORKERS = 3\<rparr>
      \<lparr>pool_failure = None, pool_completion = []\<rparr>
      []
      [\<lparr>turn_start = 0, turn_end = 3 / 2, turn_speaker = ''SPEAKER_1''\<rparr>])"
proof -
  have s: "py_strip ''Hello'' = ''Hello''" by code_simp
  show ?thesis
    by (simp add: s align_speech_and_speakers_def Let_def pool_map_def)
qed

text \<open>
  Claim C3, as amended. \<open>align_speech_and_speakers\<close> sorts the caller's list itself, in
  place: when there is a word to align, the caller's \<open>speaker_turns\<close> holds after the call
  the same turns in ascending order of start (turns of equal start in their former order),
  whether or not the pool fails. The list is left as it was when there is no word to align.
\<close>

theorem callers_turns_sorted_in_place:
  "(prepare_words (concat (map words segments)) 0 \<noteq> [] \<longrightarrow>
      snd (align_speech_and_speakers cfg env segments speaker_turns)
        = sort_key turn_start speaker_turns)
   \<and> (prepare_words (concat (map words segments)) 0 = [] \<longrightarrow>
        snd (align_speech_and_speakers cfg env segments speaker_turns) = speaker_turns)
   \<and> mset (snd (align_speech_and_speakers cfg env segments speaker_turns)) = mset speaker_turns"
proof -
  have a: "snd (align_speech_and_speakers cfg env segments speaker_turns)
        = sort_key turn_start speaker_turns"
    if "prepare_words (concat (map words segments)) 0 \<noteq> []"
  proof (cases "pool_failure env")
    case None
    then show ?thesis using that by (simp add: align_pool_ok)
  next
    case (Some e)
    then show ?thesis using that by (simp add: align_pool_failure)
  qed
  have b: "snd (align_speech_and_speakers cfg env segments speaker_turns) = speaker_turns"
    if "prepare_words (concat (map words segments)) 0 = []"
    using that by (simp add: align_no_words)
  have c: "mset (snd (align_speech_and_speakers cfg env segments speaker_turns))
      = mset speaker_turns"
    using a b by (cases "prepare_words (concat (map words segments)) 0 = []") simp_all
  show ?thesis using a b c by blast
qed

theorem callers_turns_sorted_in_place_witness:
  "snd (align_speech_and_speakers
      \<lparr>ALIGNMENT_TARGET_WORDS_PER_CHUNK = 500, ALIGNMENT_MAX_WORKERS = 3\<rparr>
      \<lparr>pool_failure = None, pool_completion = []\<rparr>
      [\<lparr>words = [\<lparr>ww_start = 0, ww_end = 1, ww_word = ''Hello''\<rparr>]\<rparr>]
      [\<lparr>turn_start = 3 / 2, turn_end = 5 / 2, turn_speaker = ''SPEAKER_2''\<rparr>,
       \<lparr>turn_start = 0, turn_end = 3 / 2, turn_speaker = ''SPEAKER_1''\<rparr>])
     = [\<lparr>turn_start = 0, turn_end = 3 / 2, turn_speaker = ''SPEAKER_1''\<rparr>,
        \<lparr>turn_start = 3 / 2, turn_end = 5 / 2, turn_speaker = ''SPEAKER_2''\<rparr>]
   \<and> snd (align_speech_and_speakers
      \<lparr>ALIGNMENT_TARGET_WORDS_PER_CHUNK = 500, ALIGNMENT_MAX_WORKERS = 3\<rparr>
      \<lparr>pool_failure = None, pool_completion = []\<rparr>
      []
      [\<lparr>turn_start = 3 / 2, turn_end = 5 / 2, turn_speaker = ''SPEAKER_2''\<rparr>,
       \<lparr>turn_start = 0, turn_end = 3 / 2, turn_speaker = ''SPEAKER_1''\<rparr>])
     = [\<lparr>turn_start = 3 / 2, turn_end = 5 / 2, turn_speaker = ''SPEAKER_2''\<rparr>,
        \<lparr>turn_start = 0, turn_end = 3 / 2, turn_speaker = ''SPEAKER_1''\<rparr>]"
proof -
  let ?cfg = "\<lparr>ALIGNMENT_TARGET_WORDS_PER_CHUNK = 500, ALIGNMENT_MAX_WORKERS = 3\<rparr>"
  let ?env = "\<lparr>pool_failure = None, pool_completion = []\<rparr>"
  let ?segs = "[\<lparr>words = [\<lparr>ww_start = 0, ww_end = 1, ww_word = ''Hello''\<rparr>]\<rparr>]"
  let ?turns = "[\<lparr>turn_start = 3 / 2, turn_end = 5 / 2, turn_speaker = ''SPEAKER_2''\<rparr>,
       \<lparr>turn_start = 0, turn_end = 3 / 2, turn_speaker = ''SPEAKER_1''\<rparr>]"
  have s: "py_strip ''Hello'' = ''Hello''" by code_simp
  have ne: "prepare_words (concat (map words ?segs)) 0 \<noteq> []" by (simp add: s)
  have e: "prepare_words (concat (map words ([] :: segment list))) 0 = []" by simp
  have 1: "snd (align_speech_and_speakers ?cfg ?env ?segs ?turns) = sort_key turn_start ?turns"
    by (rule mp[OF conjunct1[OF callers_turns_sorted_in_place[of ?segs ?cfg ?env ?turns]] ne])
  have 2: "snd (align_speech_and_speakers ?cfg ?env [] ?turns) = ?turns"
    by (rule mp[OF conjunct1[OF conjunct2[OF callers_turns_sorted_in_place[of "[]" ?cfg ?env
              ?turns]]] e])
  have 3: "sort_key turn_start ?turns =
      [\<lparr>turn_start = 0, turn_end = 3 / 2, turn_speaker = ''SPEAKER_1''\<rparr>,
        \<lparr>turn_start = 3 / 2, turn_end = 5 / 2, turn_speaker = ''SPEAKER_2''\<rparr>]"
    by simp
  show ?thesis using 1 2 unfolding 3 by (rule conjI)
qed

text \<open>
  Claim C3 as stated fails. The caller passes the turn of \<open>SPEAKER_2\<close> before the turn of
  \<open>SPEAKER_1\<close>; after the call its list holds them in the other order.
\<close>

theorem callers_turns_counterexample:
  "snd (align_speech_and_speakers
      \<lparr>ALIGNMENT_TARGET_WORDS_PER_CHUNK = 500, ALIGNMENT_MAX_WORKERS = 3\<rparr>
      \<lparr>pool_failure = None, pool_completion = []\<rparr>
      [\<lparr>words = [\<lparr>ww_start = 0, ww_end = 1, ww_word = ''Hello''\<rparr>]\<rparr>]
      [\<lparr>turn_start = 3 / 2, turn_end = 5 / 2, turn_speaker = ''SPEAKER_2''\<rparr>,
       \<lparr>turn_start = 0, turn_end = 3 / 2, turn_speaker = ''SPEAKER_1''\<rparr>])
     = [\<lparr>turn_start = 0, turn_end = 3 / 2, turn_speaker = ''SPEAKER_1''\<rparr>,
        \<lparr>turn_start = 3 / 2, turn_end = 5 / 2, turn_speaker = ''SPEAKER_2''\<rparr>]
   \<and> [\<lparr>turn_start = 0, turn_end = 3 / 2, turn_speaker = ''SPEAKER_1''\<rparr>,
        \<lparr>turn_start = 3 / 2, turn_end = 5 / 2, turn_speaker = ''SPEAKER_2''\<rparr>]
     \<noteq> [\<lparr>turn_start = 3 / 2, turn_end = 5 / 2, turn_speaker = ''SPEAKER_2''\<rparr>,
       \<lparr>turn_start = 0, turn_end = 3 / 2, turn_speaker = ''SPEAKER_1''\<rparr>]"
  by code_simp

section \<open>Subtitle writing\<close>

lemma format_srt_time_float_Inr:
  "format_srt_time (PyFloat (Finite x)) = Inr (srt_time_fields x (py_int x))"
  by (simp add: format_srt_time_def)






lemma write_phrase_entry:
  assumes "phrase_start_time st = Some s" "phrase_end_time st = Some e"
    "current_speaker_srt st = Some sp"
  shows "write_phrase mll st =
           Inr (st\<lparr>f_srt := f_srt st @ entry_strings mll (srt_sequence st) s e sp (phrase_text st)\<rparr>)"
  using assms
  by (simp add: write_phrase_def entry_strings_def time_arg_def speaker_str_def Let_def
      format_srt_time_float_Inr)

lemma spoken_by_fields:
  assumes "spoken_by sp w"
  shows "wi_start w = Some (start_of w)" "wi_end w = Some (end_of w)"
    "wi_text w = Some (text_of w)" "wi_speaker w = Some sp" "start_of w \<le> end_of w"
    "text_of w \<noteq> []"
  using assms
  by (auto simp: spoken_by_def start_of_def end_of_def text_of_def split: option.splits)

lemma srt_loop_append:
  "srt_loop mll mw g i (xs @ ys) st =
     (case srt_loop mll mw g i xs st of
        Inl e \<Rightarrow> Inl e
      | Inr st' \<Rightarrow> srt_loop mll mw g (i + length xs) ys st')"
  by (induction xs arbitrary: i st) (auto split: sum.splits)

lemma py_join_Cons: "py_join sep (x # xs) = x @ concat (map (\<lambda>y. sep @ y) xs)"
  by (induction xs arbitrary: x) simp_all

text \<open>A word of the phrase's speaker, without a long gap and below the cap, is appended.\<close>

lemma srt_step_appends:
  assumes "spoken_by sp w" "phrase_text st \<noteq> []" "current_speaker_srt st = Some sp"
    "start_of w - last_word_end_time st \<le> g" "words_in_phrase st < m"
  shows "srt_step mll (Some m) g i w st =
           Inr (st\<lparr>phrase_text := phrase_text st @ '' '' @ text_of w,
                   phrase_end_time := Some (end_of w),
                   words_in_phrase := words_in_phrase st + 1,
                   last_word_end_time := end_of w\<rparr>)"
  using assms(2-5) spoken_by_fields[OF assms(1)]
  by (simp add: srt_step_def Let_def)

lemma srt_loop_appends:
  assumes "\<forall>w\<in>set ws. spoken_by sp w" "wi_end w0 = Some (last_word_end_time st)"
    "no_long_gap g (w0 # ws)" "phrase_text st \<noteq> []" "current_speaker_srt st = Some sp"
    "words_in_phrase st + int (length ws) \<le> m" "ws \<noteq> []"
  shows "srt_loop mll (Some m) g i ws st =
           Inr (st\<lparr>phrase_text := phrase_text st @ concat (map (\<lambda>w. '' '' @ text_of w) ws),
                   phrase_end_time := Some (end_of (last ws)),
                   words_in_phrase := words_in_phrase st + int (length ws),
                   last_word_end_time := end_of (last ws)\<rparr>)"
  using assms
proof (induction ws arbitrary: st i w0)
  case Nil
  then show ?case by simp
next
  case (Cons w ws)
  have sp: "spoken_by sp w" using Cons.prems(1) by simp
  have gap: "start_of w - last_word_end_time st \<le> g"
    using Cons.prems(2,3) spoken_by_fields(1)[OF sp] by simp
  define st1 where "st1 = st\<lparr>phrase_text := phrase_text st @ '' '' @ text_of w,
                   phrase_end_time := Some (end_of w),
                   words_in_phrase := words_in_phrase st + 1,
                   last_word_end_time := end_of w\<rparr>"
  have step: "srt_step mll (Some m) g i w st = Inr st1"
    unfolding st1_def using sp Cons.prems(4,5) gap Cons.prems(6)
    by (intro srt_step_appends) simp_all
  show ?case
  proof (cases "ws = []")
    case True
    then show ?thesis using step by (simp add: st1_def)
  next
    case False
    have g': "no_long_gap g (w # ws)"
      using Cons.prems(3) by simp
    have "srt_loop mll (Some m) g (Suc i) ws st1 =
           Inr (st1\<lparr>phrase_text := phrase_text st1 @ concat (map (\<lambda>w. '' '' @ text_of w) ws),
                   phrase_end_time := Some (end_of (last ws)),
                   words_in_phrase := words_in_phrase st1 + int (length ws),
                   last_word_end_time := end_of (last ws)\<rparr>)"
      using Cons.prems(1,6) g' False spoken_by_fields(2)[OF sp]
      by (intro Cons.IH[where ?w0.0 = w]) (simp_all add: st1_def Cons.prems(5))
    then show ?thesis using step False by (simp add: st1_def)
  qed
qed

lemma no_long_gap_append:
  "no_long_gap g (xs @ ys) \<Longrightarrow> xs \<noteq> [] \<Longrightarrow> ys \<noteq> [] \<Longrightarrow>
     no_long_gap g xs \<and> no_long_gap g [last xs, hd ys]"
proof (induction g xs rule: no_long_gap.induct)
  case (1 g)
  then show ?case by simp
next
  case (2 g w)
  then show ?case by (cases ys) simp_all
next
  case (3 g w w' ws)
  then show ?case by simp
qed

text \<open>
  One word more than the cap: the first entry takes the words up to the cap, the break fires
  before the last word is appended, and the last word makes the second entry.
\<close>

lemma cap_plus_one:
  assumes "\<forall>w\<in>set (w1 # mid @ [wl]). spoken_by sp w" "no_long_gap g (w1 # mid @ [wl])"
    "1 + int (length mid) = m"
  shows "srt_loop mll (Some m) g 0 (w1 # mid @ [wl]) srt_init =
           Inr \<lparr>srt_sequence = 2, phrase_start_time = Some (start_of wl),
                phrase_end_time = Some (end_of wl), phrase_text = text_of wl,
                current_speaker_srt = Some sp, words_in_phrase = 1,
                last_word_end_time = end_of wl,
                f_srt = entry_strings mll 1 (start_of w1) (end_of (last (w1 # mid))) sp
                          (py_join '' '' (map text_of (w1 # mid)))\<rparr>"
proof -
  have s1: "spoken_by sp w1" and sl: "spoken_by sp wl" and sm: "\<forall>w\<in>set mid. spoken_by sp w"
    using assms(1) by simp_all
  define st1 where "st1 = \<lparr>srt_sequence = 1, phrase_start_time = Some (start_of w1),
      phrase_end_time = Some (end_of w1), phrase_text = text_of w1,
      current_speaker_srt = Some sp, words_in_phrase = 1, last_word_end_time = end_of w1,
      f_srt = []\<rparr>"
  have step1: "srt_step mll (Some m) g 0 w1 srt_init = Inr st1"
    using spoken_by_fields[OF s1] by (simp add: srt_step_def srt_init_def st1_def Let_def)
  have gaps: "no_long_gap g (w1 # mid)" "no_long_gap g [last (w1 # mid), wl]"
    using no_long_gap_append[of g "w1 # mid" "[wl]"] assms(2) by simp_all
  define st2 where "st2 = st1\<lparr>phrase_text := py_join '' '' (map text_of (w1 # mid)),
      phrase_end_time := Some (end_of (last (w1 # mid))),
      words_in_phrase := m,
      last_word_end_time := end_of (last (w1 # mid))\<rparr>"
  have run: "srt_loop mll (Some m) g (Suc 0) mid st1 = Inr st2"
  proof (cases "mid = []")
    case True
    then show ?thesis using assms(3) by (simp add: st2_def st1_def)
  next
    case False
    have "srt_loop mll (Some m) g (Suc 0) mid st1 =
           Inr (st1\<lparr>phrase_text := phrase_text st1 @ concat (map (\<lambda>w. '' '' @ text_of w) mid),
                   phrase_end_time := Some (end_of (last mid)),
                   words_in_phrase := words_in_phrase st1 + int (length mid),
                   last_word_end_time := end_of (last mid)\<rparr>)"
      using sm gaps(1) False spoken_by_fields[OF s1] assms(3)
      by (intro srt_loop_appends[where ?w0.0 = w1]) (simp_all add: st1_def)
    then show ?thesis
      using False assms(3) by (simp add: st2_def st1_def py_join_Cons comp_def)
  qed
  have last_sp: "spoken_by sp (last (w1 # mid))"
    using s1 sm by (cases "mid = []") simp_all
  have gapl: "start_of wl - end_of (last (w1 # mid)) \<le> g"
    using gaps(2) spoken_by_fields(1)[OF sl] spoken_by_fields(2)[OF last_sp] by simp
  have ne: "py_join '' '' (map text_of (w1 # mid)) \<noteq> []"
    using spoken_by_fields(6)[OF s1] by (simp add: py_join_Cons)
  have wp: "write_phrase mll st2 =
      Inr (st2\<lparr>f_srt := entry_strings mll 1 (start_of w1) (end_of (last (w1 # mid))) sp
                 (py_join '' '' (map text_of (w1 # mid)))\<rparr>)"
    using write_phrase_entry[of st2 "start_of w1" "end_of (last (w1 # mid))" sp mll]
    by (simp add: st2_def st1_def)
  have stepl: "srt_step mll (Some m) g (Suc (length mid)) wl st2 =
      Inr \<lparr>srt_sequence = 2, phrase_start_time = Some (start_of wl),
                phrase_end_time = Some (end_of wl), phrase_text = text_of wl,
                current_speaker_srt = Some sp, words_in_phrase = 1,
                last_word_end_time = end_of wl,
                f_srt = entry_strings mll 1 (start_of w1) (end_of (last (w1 # mid))) sp
                          (py_join '' '' (map text_of (w1 # mid)))\<rparr>"
  proof -
    have a: "phrase_text st2 \<noteq> []" "words_in_phrase st2 = m"
      "current_speaker_srt st2 = Some sp"
      using ne by (simp_all add: st2_def st1_def)
    show ?thesis
      unfolding srt_step_def Let_def
      using spoken_by_fields[OF sl] a
      by (simp add: wp) (simp add: st2_def st1_def)
  qed
  show ?thesis
    using step1 run stepl by (simp add: srt_loop_append)
qed

text \<open>
  Claim C8. For eleven well-formed words of one speaker with non-empty texts, no word
  starting more than the gap threshold after the end of the word before it, and
  \<open>max_words_per_entry\<close> 10, \<open>save_to_srt\<close> succeeds and writes exactly two entries: entry 1
  from the start of the first word to the end of the tenth with the texts of the first ten
  words joined by spaces, and entry 2 with the eleventh word alone.
\<close>

theorem eleven_words_two_entries:
  assumes "length ws = 11" "\<forall>w\<in>set ws. spoken_by sp w"
    "no_long_gap (dict_get (opt_speaker_gap_threshold opts) 1) ws"
    "dict_get (opt_max_words_per_entry opts) (Some 10) = Some 10"
  shows "save_to_srt ws opts =
           (True,
            entry_strings (dict_get (opt_max_line_length opts) (Some 42)) 1
                (start_of (ws ! 0)) (end_of (ws ! 9)) sp
                (py_join '' '' (map text_of (take 10 ws)))
              @ entry_strings (dict_get (opt_max_line_length opts) (Some 42)) 2
                  (start_of (ws ! 10)) (end_of (ws ! 10)) sp (text_of (ws ! 10)))"
proof -
  define w1 where "w1 = hd ws"
  define mid where "mid = butlast (tl ws)"
  define wl where "wl = last ws"
  define mll where "mll = dict_get (opt_max_line_length opts) (Some 42)"
  define g where "g = dict_get (opt_speaker_gap_threshold opts) 1"
  have ne: "ws \<noteq> []" "tl ws \<noteq> []" using assms(1) by (auto simp: tl_Nil)
  have ws: "ws = w1 # mid @ [wl]"
  proof -
    have "ws = hd ws # tl ws" using ne(1) by simp
    moreover have "tl ws = butlast (tl ws) @ [last (tl ws)]" using ne(2) by simp
    moreover have "last (tl ws) = last ws" using ne(2) by (simp add: last_tl)
    ultimately show ?thesis unfolding w1_def mid_def wl_def by metis
  qed
  have lm: "length mid = 9" using assms(1) by (simp add: mid_def)
  have t: "take 10 ws = w1 # mid" using lm by (subst ws) simp
  have n0: "ws ! 0 = w1" by (subst ws) simp
  have n9: "ws ! 9 = last (w1 # mid)"
  proof -
    have "last (w1 # mid) = (w1 # mid) ! (length (w1 # mid) - 1)"
      by (rule last_conv_nth) simp
    then have "(w1 # mid) ! 9 = last (w1 # mid)" using lm by simp
    moreover have "ws ! 9 = (w1 # mid) ! 9"
      using lm by (subst ws) (simp add: nth_append nth_Cons')
    ultimately show ?thesis by simp
  qed
  have n10: "ws ! 10 = wl"
    using lm by (subst ws) (simp add: nth_append nth_Cons')
  have loop: "srt_loop mll (Some 10) g 0 ws srt_init =
           Inr \<lparr>srt_sequence = 2, phrase_start_time = Some (start_of wl),
                phrase_end_time = Some (end_of wl), phrase_text = text_of wl,
                current_speaker_srt = Some sp, words_in_phrase = 1,
                last_word_end_time = end_of wl,
                f_srt = entry_strings mll 1 (start_of w1) (end_of (last (w1 # mid))) sp
                          (py_join '' '' (map text_of (w1 # mid)))\<rparr>"
  proof -
    have a: "\<forall>w\<in>set (w1 # mid @ [wl]). spoken_by sp w" using assms(2) unfolding ws .
    have b: "no_long_gap g (w1 # mid @ [wl])" using assms(3) unfolding g_def ws .
    have c: "1 + int (length mid) = 10" using lm by simp
    show ?thesis unfolding ws by (rule cap_plus_one[OF a b c])
  qed
  have sl: "spoken_by sp wl" using assms(2) ws by (metis last_in_set ne(1) wl_def)
  show ?thesis
    unfolding save_to_srt_def Let_def assms(4) mll_def[symmetric] g_def[symmetric] loop
      t n0 n9 n10
    using spoken_by_fields(6)[OF sl]
    by (simp add: write_phrase_entry)
qed

theorem eleven_words_two_entries_witness:
  "save_to_srt
     (map (\<lambda>i. \<lparr>wi_start = Some (of_nat i), wi_end = Some (of_nat i + 1 / 2),
                 wi_text = Some ''word'', wi_speaker = Some ''S1''\<rparr>) [0..<11])
     \<lparr>opt_max_line_length = Some (Some 42), opt_max_words_per_entry = Some (Some 10),
      opt_speaker_gap_threshold = Some 1\<rparr>
   = (True,
      [''1'' @ newline, ''00:00:00,000 --> 00:00:09,500'' @ newline,
       ''[S1]: word word word word word word word'' @ newline @ ''word word word''
         @ newline @ newline,
       ''2'' @ newline, ''00:00:10,000 --> 00:00:10,500'' @ newline,
       ''[S1]: word'' @ newline @ newline])"
proof -
  let ?ws = "map (\<lambda>i. \<lparr>wi_start = Some (of_nat i), wi_end = Some (of_nat i + 1 / 2),
                 wi_text = Some ''word'', wi_speaker = Some ''S1''\<rparr>) [0..<11]"
  let ?opts = "\<lparr>opt_max_line_length = Some (Some 42), opt_max_words_per_entry = Some (Some 10),
      opt_speaker_gap_threshold = Some 1\<rparr>"
  have h1: "length ?ws = 11" by simp
  have h2: "\<forall>w\<in>set ?ws. spoken_by ''S1'' w" by (simp add: spoken_by_def)
  have h3: "no_long_gap (dict_get (opt_speaker_gap_threshold ?opts) 1) ?ws" by code_simp
  have h4: "dict_get (opt_max_words_per_entry ?opts) (Some 10) = Some 10"
    by (simp add: dict_get_def)
  have r: "entry_strings (dict_get (opt_max_line_length ?opts) (Some 42)) 1
                (start_of (?ws ! 0)) (end_of (?ws ! 9)) ''S1''
                (py_join '' '' (map text_of (take 10 ?ws)))
              @ entry_strings (dict_get (opt_max_line_length ?opts) (Some 42)) 2
                  (start_of (?ws ! 10)) (end_of (?ws ! 10)) ''S1'' (text_of (?ws ! 10))
      = [''1'' @ newline, ''00:00:00,000 --> 00:00:09,500'' @ newline,
       ''[S1]: word word word word word word word'' @ newline @ ''word word word''
         @ newline @ newline,
       ''2'' @ newline, ''00:00:10,000 --> 00:00:10,500'' @ newline,
       ''[S1]: word'' @ newline @ newline]"
    by code_simp
  show ?thesis
    using eleven_words_two_entries[OF h1 h2 h3 h4] unfolding r .
qed

section \<open>Word wrap\<close>




















end
